theory Spec2Isabelle
  imports Complex_Main
begin

section \<open>Arrays and the array primitives used by \<^verbatim>\<open>_graph_util.py\<close>\<close>

text \<open>
  The module \<^verbatim>\<open>e3nn_jax/_graph_util.py\<close> consists of three functions,
  \<^verbatim>\<open>_distinct_but_small\<close>, \<^verbatim>\<open>index_add\<close> and \<^verbatim>\<open>radius_graph\<close>, each a short
  composition of JAX array primitives. The primitives are modelled here as list
  functions, following the documented behaviour of \<^verbatim>\<open>jax.numpy\<close>:
  integer index arrays are \<open>int list\<close>, a feature array is its trailing shape together
  with its rows, each row flattened. Array elements are taken from a commutative monoid
  (for \<^verbatim>\<open>index_add\<close>) or from the reals (for \<^verbatim>\<open>radius_graph\<close>): rounding, infinities
  and NaN of machine floats are not part of the model. Dimensions (\<^verbatim>\<open>out_dim\<close>,
  \<^verbatim>\<open>size\<close>) are natural numbers.
\<close>

datatype error = AssertionError | ValueError string | IndexError

record 'a ndarray =
  trailing :: "nat list"
  rows :: "'a list list"



text \<open>\<^verbatim>\<open>jnp.zeros((n,) + tail)\<close>.\<close>

definition jnp_zeros :: "nat \<Rightarrow> nat list \<Rightarrow> ('a::zero) ndarray" where
  "jnp_zeros n tail = \<lparr>trailing = tail, rows = replicate n (replicate (prod_list tail) 0)\<rparr>"

text \<open>An index into an axis of size \<open>n\<close>: a negative index counts from the end, as in
  NumPy.\<close>

definition normalize_index :: "int \<Rightarrow> nat \<Rightarrow> int" where
  "normalize_index i n = (if i < 0 then i + int n else i)"

text \<open>\<^verbatim>\<open>out.at[indices].add(x)\<close>: row \<open>k\<close> of \<open>x\<close> is added, entry by entry, to the row
  \<open>indices[k]\<close> of \<open>out\<close>; every update of a repeated index is applied; an update whose
  index is still outside \<open>[0, n)\<close> after normalisation is dropped (the default
  out-of-bounds mode of a JAX scatter).\<close>

definition at_add_row :: "('a::plus) list list \<Rightarrow> int \<Rightarrow> 'a list \<Rightarrow> 'a list list" where
  "at_add_row out i r =
     (let j = normalize_index i (length out)
      in if 0 \<le> j \<and> j < int (length out)
         then out[nat j := map2 (+) (out ! nat j) r]
         else out)"

definition at_add :: "('a::plus) ndarray \<Rightarrow> int list \<Rightarrow> 'a ndarray \<Rightarrow> 'a ndarray" where
  "at_add out indices x =
     out\<lparr>rows := fold (\<lambda>(i, r) acc. at_add_row acc i r) (zip indices (rows x)) (rows out)\<rparr>"

text \<open>\<^verbatim>\<open>xs[indices]\<close> with an integer index array: each index is normalised and then
  clamped into \<open>[0, n)\<close> (the default out-of-bounds mode of a JAX gather). An axis of
  size 0 has no element to return; reading it at a non-empty index array is modelled as
  an \<open>IndexError\<close>.\<close>

definition clip_index :: "int \<Rightarrow> nat \<Rightarrow> nat" where
  "clip_index i n = nat (max 0 (min (normalize_index i n) (int n - 1)))"

definition jnp_take :: "'a list \<Rightarrow> int list \<Rightarrow> error + 'a list" where
  "jnp_take xs indices =
     (if xs = [] \<and> indices \<noteq> [] then Inl IndexError
      else Inr (map (\<lambda>i. xs ! clip_index i (length xs)) indices))"

text \<open>\<^verbatim>\<open>xs[mask]\<close> with a boolean array of the same length: the entries where the mask
  holds, in order.\<close>

definition bool_index :: "'a list \<Rightarrow> bool list \<Rightarrow> 'a list" where
  "bool_index xs mask' = map fst (filter snd (zip xs mask'))"

text \<open>\<^verbatim>\<open>jnp.unique(x, size=n)\<close>: the distinct values in ascending order, cut to the
  first \<open>n\<close> or padded to length \<open>n\<close> with the smallest value.\<close>

definition jnp_unique :: "int list \<Rightarrow> nat \<Rightarrow> int list" where
  "jnp_unique x n =
     (let u = sort (remdups x);
          fill_value = (case u of [] \<Rightarrow> 0 | m # _ \<Rightarrow> m)
      in take n u @ replicate (n - length u) fill_value)"

text \<open>\<^verbatim>\<open>jnp.where(mask, size=size, fill_value=fill_value)\<close> on a one-dimensional mask:
  the positions where the mask holds, ascending; with a size, the first \<open>size\<close> of them,
  padded with the fill value. The result is the one-element tuple's only array.\<close>

definition jnp_where1 :: "bool list \<Rightarrow> nat option \<Rightarrow> int \<Rightarrow> int list" where
  "jnp_where1 mask' size' fill_value =
     (let found = map int (filter (\<lambda>k. mask' ! k) [0..<length mask'])
      in case size' of
           None \<Rightarrow> found
         | Some n \<Rightarrow> take n found @ replicate (n - length found) fill_value)"

text \<open>The same on a two-dimensional mask: the (row, column) positions in row-major
  order, returned as the array of rows and the array of columns; the fill value pads
  both.\<close>

definition nonzero2 :: "bool list list \<Rightarrow> (int \<times> int) list" where
  "nonzero2 mask' =
     concat (map (\<lambda>i. map (\<lambda>j. (int i, int j)) (filter (\<lambda>j. mask' ! i ! j) [0..<length (mask' ! i)]))
                 [0..<length mask'])"

definition jnp_where2 :: "bool list list \<Rightarrow> nat option \<Rightarrow> int \<Rightarrow> int list \<times> int list" where
  "jnp_where2 mask' size' fill_value =
     (let found = nonzero2 mask';
          sized = (case size' of
                     None \<Rightarrow> found
                   | Some n \<Rightarrow> take n found @ replicate (n - length found) (fill_value, fill_value))
      in (map fst sized, map snd sized))"

text \<open>\<^verbatim>\<open>jnp.linalg.norm(v)\<close> of a vector: the 2-norm.\<close>

definition jnp_linalg_norm :: "real list \<Rightarrow> real" where
  "jnp_linalg_norm v = sqrt (sum_list (map (\<lambda>a. \<bar>a\<bar> ^ 2) v))"

section \<open>\<^verbatim>\<open>_distinct_but_small\<close>\<close>

text \<open>
  \<^verbatim>\<open>unique = jnp.unique(x, size=x.shape[0])\<close>, then for every entry \<open>i\<close> of \<open>x\<close> the
  first position of \<open>unique\<close> that equals \<open>i\<close>:
  \<^verbatim>\<open>jnp.where(i == unique, size=1)[0][0]\<close>. The fill value of \<^verbatim>\<open>jnp.where\<close> is its
  default, 0.
\<close>

definition distinct_but_small :: "int list \<Rightarrow> int list" where
  "distinct_but_small x =
     (let unique = jnp_unique x (length x)
      in map (\<lambda>i. hd (jnp_where1 (map (\<lambda>u. i = u) unique) (Some 1) 0)) x)"

section \<open>\<^verbatim>\<open>index_add\<close>\<close>

text \<open>Modelled from the spec: the class \<^verbatim>\<open>e3nn.IrrepsArray\<close> is not part of the module.
  A labeled feature array carries a tag, a list of (group-label, multiplicity,
  sub-dimension) triples, next to its numeric data; \<^verbatim>\<open>IrrepsArray(irreps, array)\<close>
  pairs the two.\<close>

type_synonym irreps = "(string \<times> nat \<times> nat) list"

datatype 'a features = Array "'a ndarray" | IrrepsArray irreps "'a ndarray"

text \<open>\<^verbatim>\<open>input.shape[0]\<close>, for either kind of input.\<close>

fun shape0 :: "'a features \<Rightarrow> nat" where
  "shape0 (Array a) = length (rows a)"
| "shape0 (IrrepsArray ir a) = length (rows a)"

text \<open>\<^verbatim>\<open>x = input.array if isinstance(input, e3nn.IrrepsArray) else input\<close>.\<close>

fun array_of :: "'a features \<Rightarrow> 'a ndarray" where
  "array_of (Array a) = a"
| "array_of (IrrepsArray ir a) = a"

text \<open>The last lines of \<^verbatim>\<open>index_add\<close>: a labeled input gives a labeled output with the
  input's tag.\<close>

fun relabel :: "'a features \<Rightarrow> 'a ndarray \<Rightarrow> 'a features" where
  "relabel (Array a) output = Array output"
| "relabel (IrrepsArray ir a) output = IrrepsArray ir output"

definition index_add ::
  "int list \<Rightarrow> ('a::comm_monoid_add) features \<Rightarrow> nat option \<Rightarrow> bool \<Rightarrow> error + 'a features" where
  "index_add indices input out_dim map_back =
     (if length indices \<noteq> shape0 input then Inl AssertionError
      else if out_dim = None \<and> \<not> map_back
      then Inl (ValueError ''out_dim must be specified if map_back is False'')
      else if out_dim \<noteq> None \<and> map_back
      then Inl (ValueError ''out_dim must not be specified if map_back is True'')
      else
        let (out_dim', indices') =
              (case out_dim of
                 None \<Rightarrow> (length indices, distinct_but_small indices)
               | Some d \<Rightarrow> (d, indices));
            x = array_of input;
            output = at_add (jnp_zeros out_dim' (trailing x)) indices' x
        in if map_back
           then (case jnp_take (rows output) indices' of
                   Inl e \<Rightarrow> Inl e
                 | Inr rs \<Rightarrow> Inr (relabel input (output\<lparr>rows := rs\<rparr>)))
           else Inr (relabel input output))"

section \<open>\<^verbatim>\<open>radius_graph\<close>\<close>

text \<open>
  The body of \<^verbatim>\<open>radius_graph\<close> in its three steps. \<open>distances\<close> is the matrix \<open>r\<close> of
  \<^verbatim>\<open>jnp.linalg.norm(x - y)\<close> for \<open>x\<close> a row of \<open>pos\<close> (outer \<^verbatim>\<open>vmap\<close>) and \<open>y\<close> a row
  of \<open>pos\<close> (inner \<^verbatim>\<open>vmap\<close>); \<open>adjacency\<close> is \<^verbatim>\<open>mask\<close>, by the branch on \<^verbatim>\<open>loop\<close>;
  \<open>radius_graph\<close> extracts the pairs and, with a \<^verbatim>\<open>batch\<close>, filters them by
  \<^verbatim>\<open>batch[src] == batch[dst]\<close>.
\<close>

definition distances :: "real list list \<Rightarrow> real list list" where
  "distances pos = map (\<lambda>x. map (\<lambda>y. jnp_linalg_norm (map2 (-) x y)) pos) pos"

definition adjacency :: "real list list \<Rightarrow> real \<Rightarrow> bool \<Rightarrow> bool list list" where
  "adjacency pos r_max loop =
     (let r = distances pos
      in if loop then map (map (\<lambda>d. d < r_max)) r
         else map (map (\<lambda>d. d < r_max \<and> d > 0)) r)"

definition radius_graph ::
  "real list list \<Rightarrow> real \<Rightarrow> 'b list option \<Rightarrow> nat option \<Rightarrow> bool \<Rightarrow> error + (int list \<times> int list)" where
  "radius_graph pos r_max batch size' loop =
     (let mask' = adjacency pos r_max loop;
          (src, dst) = jnp_where2 mask' size' (- 1)
      in case batch of
           None \<Rightarrow> Inr (src, dst)
         | Some b \<Rightarrow>
             (case jnp_take b src of
                Inl e \<Rightarrow> Inl e
              | Inr bs \<Rightarrow>
                  (case jnp_take b dst of
                     Inl e \<Rightarrow> Inl e
                   | Inr bd \<Rightarrow>
                       let same = map2 (=) bs bd
                       in Inr (bool_index src same, bool_index dst same))))"


section \<open>Scatter-add, bucket by bucket\<close>









section \<open>The dense relabeling\<close>

lemma jnp_where1_first:
  assumes "k < length m" "m ! k" "\<forall>j<k. \<not> m ! j"
  shows "hd (jnp_where1 m (Some 1) 0) = int k"
proof -
  have "[0..<k + (length m - k)] = [0..<k] @ [k..<k + (length m - k)]"
    by (rule upt_add_eq_append) simp
  then have "[0..<length m] = [0..<k] @ k # [Suc k..<length m]"
    using assms(1) by (simp add: upt_conv_Cons)
  moreover have "filter (\<lambda>j. m ! j) [0..<k] = []"
    using assms(3) by (simp add: filter_empty_conv)
  ultimately have "filter (\<lambda>j. m ! j) [0..<length m] = k # filter (\<lambda>j. m ! j) [Suc k..<length m]"
    using assms(2) by simp
  then show ?thesis
    by (simp add: jnp_where1_def)
qed

lemma jnp_unique_full:
  "jnp_unique x (length x) =
     sort (remdups x) @ replicate (length x - card (set x)) (case sort (remdups x) of [] \<Rightarrow> 0 | m # _ \<Rightarrow> m)"
proof -
  have "length (sort (remdups x)) = card (set x)"
    by (simp add: length_remdups_card_conv)
  moreover have "card (set x) \<le> length x"
    by (rule card_length)
  ultimately show ?thesis
    by (simp add: jnp_unique_def Let_def)
qed

lemma distinct_but_small_nth:
  assumes "i < length x"
  shows "\<exists>k<card (set x). sort (remdups x) ! k = x ! i \<and> distinct_but_small x ! i = int k"
proof -
  let ?u = "sort (remdups x)"
  let ?unique = "jnp_unique x (length x)"
  have len: "length ?u = card (set x)"
    by (simp add: length_remdups_card_conv)
  have d: "distinct ?u" by simp
  from assms have "x ! i \<in> set ?u" by simp
  then obtain k where k: "k < length ?u" "?u ! k = x ! i"
    unfolding in_set_conv_nth by blast
  let ?m = "map (\<lambda>u. x ! i = u) ?unique"
  have un: "?unique = ?u @ replicate (length x - card (set x)) (case ?u of [] \<Rightarrow> 0 | m # _ \<Rightarrow> m)"
    by (rule jnp_unique_full)
  have k_lt: "k < length ?m" using k(1) by (simp add: un)
  have at_k: "?m ! k" using k by (simp add: un nth_append)
  have before: "\<forall>j<k. \<not> ?m ! j"
  proof (intro allI impI)
    fix j assume j: "j < k"
    then have "?u ! j \<noteq> ?u ! k"
      using d k(1) by (simp add: nth_eq_iff_index_eq)
    with j k show "\<not> ?m ! j" by (simp add: un nth_append)
  qed
  have "hd (jnp_where1 ?m (Some 1) 0) = int k"
    using k_lt at_k before by (rule jnp_where1_first)
  with assms have "distinct_but_small x ! i = int k"
    by (simp add: distinct_but_small_def Let_def)
  with k len show ?thesis by auto
qed

lemma sorted_distinct_rank:
  fixes u :: "int list"
  assumes "sorted u" "distinct u" "k < length u"
  shows "card {v \<in> set u. v < u ! k} = k"
proof -
  have "{v \<in> set u. v < u ! k} = set (take k u)"
  proof (intro set_eqI iffI)
    fix v assume "v \<in> {v \<in> set u. v < u ! k}"
    then obtain j where j: "j < length u" "u ! j = v" "v < u ! k"
      by (auto simp: in_set_conv_nth)
    have "j < k"
    proof (rule ccontr)
      assume "\<not> j < k"
      then have "u ! k \<le> u ! j" using assms(1) j(1) sorted_nth_mono [of u k j] by simp
      with j show False by simp
    qed
    with j assms(3) show "v \<in> set (take k u)"
      by (auto simp: in_set_conv_nth)
  next
    fix v assume "v \<in> set (take k u)"
    then obtain j where j: "j < k" "u ! j = v"
      using assms(3) by (auto simp: in_set_conv_nth)
    then have "u ! j \<le> u ! k" using assms(1,3) sorted_nth_mono [of u j k] by simp
    moreover have "u ! j \<noteq> u ! k" using assms(2,3) j(1) by (simp add: nth_eq_iff_index_eq)
    ultimately show "v \<in> {v \<in> set u. v < u ! k}"
      using j assms(3) by auto
  qed
  moreover have "card (set (take k u)) = k"
    using assms(2,3) by (simp add: distinct_card)
  ultimately show ?thesis by simp
qed

lemma distinct_but_small_eq_iff:
  assumes "i < length x" "j < length x"
  shows "distinct_but_small x ! i = distinct_but_small x ! j \<longleftrightarrow> x ! i = x ! j"
proof -
  let ?u = "sort (remdups x)"
  have len: "length ?u = card (set x)"
    by (simp add: length_remdups_card_conv)
  obtain ki where ki: "ki < card (set x)" "?u ! ki = x ! i" "distinct_but_small x ! i = int ki"
    using distinct_but_small_nth [OF assms(1)] by blast
  obtain kj where kj: "kj < card (set x)" "?u ! kj = x ! j" "distinct_but_small x ! j = int kj"
    using distinct_but_small_nth [OF assms(2)] by blast
  have "?u ! ki = ?u ! kj \<longleftrightarrow> ki = kj"
    using ki(1) kj(1) len by (simp add: nth_eq_iff_index_eq)
  with ki kj show ?thesis by simp
qed

lemma distinct_but_small_rank:
  assumes "i < length x"
  shows "distinct_but_small x ! i = int (card {v \<in> set x. v < x ! i})"
proof -
  let ?u = "sort (remdups x)"
  have len: "length ?u = card (set x)"
    by (simp add: length_remdups_card_conv)
  obtain k where k: "k < card (set x)" "?u ! k = x ! i" "distinct_but_small x ! i = int k"
    using distinct_but_small_nth [OF assms] by blast
  have "card {v \<in> set ?u. v < ?u ! k} = k"
    using k(1) len by (intro sorted_distinct_rank) simp_all
  with k show ?thesis by simp
qed

lemma set_distinct_but_small:
  "set (distinct_but_small x) = int ` {0..<card (set x)}"
proof (intro set_eqI iffI)
  fix v assume "v \<in> set (distinct_but_small x)"
  then obtain i where i: "i < length x" "distinct_but_small x ! i = v"
    unfolding in_set_conv_nth by (auto simp: distinct_but_small_def Let_def)
  with distinct_but_small_nth [OF i(1)] show "v \<in> int ` {0..<card (set x)}"
    by auto
next
  let ?u = "sort (remdups x)"
  have len: "length ?u = card (set x)"
    by (simp add: length_remdups_card_conv)
  fix v assume "v \<in> int ` {0..<card (set x)}"
  then obtain k where k: "k < card (set x)" "v = int k" by auto
  then have "?u ! k \<in> set ?u" using len by (intro nth_mem) simp
  then have "?u ! k \<in> set x" by simp
  then obtain i where i: "i < length x" "x ! i = ?u ! k"
    unfolding in_set_conv_nth by blast
  obtain k' where k': "k' < card (set x)" "?u ! k' = x ! i" "distinct_but_small x ! i = int k'"
    using distinct_but_small_nth [OF i(1)] by blast
  have "k' = k"
    using k(1) k'(1,2) i(2) len by (simp add: nth_eq_iff_index_eq)
  with k' k(2) have "distinct_but_small x ! i = v" by simp
  moreover have "i < length (distinct_but_small x)"
    using i(1) by (simp add: distinct_but_small_def Let_def)
  ultimately show "v \<in> set (distinct_but_small x)"
    by (metis nth_mem)
qed

lemma length_distinct_but_small: "length (distinct_but_small x) = length x"
  by (simp add: distinct_but_small_def Let_def)

text \<open>
  C4. For every integer array \<open>x\<close> of length \<open>N\<close>, \<^verbatim>\<open>_distinct_but_small\<close> returns an
  array \<open>y\<close> of length \<open>N\<close> with \<open>y[i] = y[j]\<close> exactly when \<open>x[i] = x[j]\<close>; the values
  of \<open>y\<close> are exactly \<open>0, ..., k - 1\<close> for \<open>k\<close> the number of distinct values of \<open>x\<close>; and
  each key is sent to its rank among the distinct keys in ascending order, that is, to
  the number of distinct keys below it.
\<close>

theorem distinct_but_small_dense_ranks:
  "length (distinct_but_small x) = length x \<and>
   (\<forall>i<length x. \<forall>j<length x.
      distinct_but_small x ! i = distinct_but_small x ! j \<longleftrightarrow> x ! i = x ! j) \<and>
   set (distinct_but_small x) = int ` {0..<card (set x)} \<and>
   (\<forall>i<length x. distinct_but_small x ! i = int (card {v \<in> set x. v < x ! i}))"
  using length_distinct_but_small distinct_but_small_eq_iff set_distinct_but_small
    distinct_but_small_rank by blast

theorem distinct_but_small_dense_ranks_witness:
  "distinct_but_small [5, 3, 5, - 2, 7, 3] = [2, 1, 2, 0, 3, 1] \<and>
   distinct_but_small [5, 3, 5, - 2, 7, 3] ! 0 = distinct_but_small [5, 3, 5, - 2, 7, 3] ! 2 \<and>
   set (distinct_but_small [5, 3, 5, - 2, 7, 3]) = int ` {0..<card (set [5, 3, 5, - 2, 7, 3 :: int])} \<and>
   distinct_but_small [5, 3, 5, - 2, 7, 3] ! 4 = int (card {v \<in> set [5, 3, 5, - 2, 7, 3 :: int]. v < 7})"
proof -
  let ?x = "[5, 3, 5, - 2, 7, 3] :: int list"
  note t = distinct_but_small_dense_ranks [of ?x]
  have a: "distinct_but_small ?x = [2, 1, 2, 0, 3, 1]"
    by code_simp
  have b: "distinct_but_small ?x ! 0 = distinct_but_small ?x ! 2"
    using t [THEN conjunct2, THEN conjunct1, rule_format, of 0 2] by simp
  have c: "set (distinct_but_small ?x) = int ` {0..<card (set ?x)}"
    using t [THEN conjunct2, THEN conjunct2, THEN conjunct1] .
  have d: "distinct_but_small ?x ! 4 = int (card {v \<in> set ?x. v < 7})"
    using t [THEN conjunct2, THEN conjunct2, THEN conjunct2, rule_format, of 4] by simp
  from a b c d show ?thesis by blast
qed

section \<open>\<^verbatim>\<open>index_add\<close> into buckets\<close>

lemma index_add_bucketed:
  assumes "length indices = shape0 input"
  shows "index_add indices input (Some d) False =
           Inr (relabel input (at_add (jnp_zeros d (trailing (array_of input))) indices (array_of input)))"
  using assms by (simp add: index_add_def Let_def)






section \<open>Sizing modes and labels of \<^verbatim>\<open>index_add\<close>\<close>

lemma index_add_relabel:
  "index_add indices (IrrepsArray ir a) out_dim map_back =
     (case index_add indices (Array a) out_dim map_back of
        Inl e \<Rightarrow> Inl e
      | Inr out \<Rightarrow> Inr (IrrepsArray ir (array_of out)))"
proof (cases out_dim)
  case None
  then show ?thesis
    by (cases map_back) (simp_all add: index_add_def Let_def split: sum.splits)
next
  case (Some d)
  then show ?thesis
    by (cases map_back) (simp_all add: index_add_def Let_def split: sum.splits)
qed

lemma index_add_neither:
  assumes "length indices = shape0 input"
  shows "index_add indices input None False =
           Inl (ValueError ''out_dim must be specified if map_back is False'')"
  using assms by (simp add: index_add_def)

lemma index_add_both:
  assumes "length indices = shape0 input"
  shows "index_add indices input (Some d) True =
           Inl (ValueError ''out_dim must not be specified if map_back is True'')"
  using assms by (simp add: index_add_def)

lemma index_add_mapped_back:
  assumes "length indices = shape0 input"
  shows "index_add indices input None True =
           (let indices' = distinct_but_small indices;
                x = array_of input;
                output = at_add (jnp_zeros (length indices) (trailing x)) indices' x
            in case jnp_take (rows output) indices' of
                 Inl e \<Rightarrow> Inl e
               | Inr rs \<Rightarrow> Inr (relabel input (output\<lparr>rows := rs\<rparr>)))"
  using assms by (simp add: index_add_def Let_def)

lemma jnp_take_cases:
  "jnp_take xs indices = Inl IndexError \<or> (\<exists>ys. jnp_take xs indices = Inr ys)"
  by (simp add: jnp_take_def)

lemma index_add_mapped_back_no_ValueError:
  assumes "length indices = shape0 input"
  shows "index_add indices input None True \<noteq> Inl (ValueError msg)"
proof -
  let ?x = "array_of input"
  let ?output = "at_add (jnp_zeros (length indices) (trailing ?x)) (distinct_but_small indices) ?x"
  from jnp_take_cases [of "rows ?output" "distinct_but_small indices"]
  show ?thesis
    by (auto simp: index_add_mapped_back [OF assms] Let_def)
qed

text \<open>
  C7. On a call whose index array is as long as the input has rows, \<^verbatim>\<open>index_add\<close>
  raises its \<^verbatim>\<open>ValueError\<close> exactly when the two sizing modes are not used
  exclusively: when \<^verbatim>\<open>out_dim\<close> is unset and \<^verbatim>\<open>map_back\<close> is false, and when
  \<^verbatim>\<open>out_dim\<close> is set and \<^verbatim>\<open>map_back\<close> is true; in both cases no output is returned.
\<close>

theorem index_add_invalid_configuration:
  fixes input :: "('a::comm_monoid_add) features"
  assumes "length indices = shape0 input"
  shows "((\<exists>msg. index_add indices input out_dim map_back = Inl (ValueError msg)) \<longleftrightarrow>
            (out_dim = None \<and> \<not> map_back) \<or> (out_dim \<noteq> None \<and> map_back)) \<and>
         (out_dim = None \<and> \<not> map_back \<longrightarrow>
            index_add indices input out_dim map_back =
              Inl (ValueError ''out_dim must be specified if map_back is False'')) \<and>
         (out_dim \<noteq> None \<and> map_back \<longrightarrow>
            index_add indices input out_dim map_back =
              Inl (ValueError ''out_dim must not be specified if map_back is True'')) \<and>
         ((out_dim = None \<and> \<not> map_back) \<or> (out_dim \<noteq> None \<and> map_back) \<longrightarrow>
            (\<forall>result. index_add indices input out_dim map_back \<noteq> Inr result))"
proof (cases out_dim)
  case None
  show ?thesis
  proof (cases map_back)
    case True
    with None index_add_mapped_back_no_ValueError [OF assms] show ?thesis by simp
  next
    case False
    with None index_add_neither [OF assms] show ?thesis by simp
  qed
next
  case (Some d)
  show ?thesis
  proof (cases map_back)
    case True
    with Some index_add_both [OF assms] show ?thesis by simp
  next
    case False
    with Some index_add_bucketed [OF assms] show ?thesis by simp
  qed
qed

theorem index_add_invalid_configuration_witness:
  "length [0, 1 :: int] = shape0 (Array \<lparr>trailing = [], rows = [[1], [2 :: int]]\<rparr>) \<and>
   index_add [0, 1] (Array \<lparr>trailing = [], rows = [[1], [2 :: int]]\<rparr>) None False =
     Inl (ValueError ''out_dim must be specified if map_back is False'') \<and>
   index_add [0, 1] (Array \<lparr>trailing = [], rows = [[1], [2 :: int]]\<rparr>) (Some 2) True =
     Inl (ValueError ''out_dim must not be specified if map_back is True'') \<and>
   \<not> (\<exists>msg. index_add [0, 1] (Array \<lparr>trailing = [], rows = [[1], [2 :: int]]\<rparr>) (Some 2) False =
          Inl (ValueError msg))"
proof -
  let ?input = "Array \<lparr>trailing = [], rows = [[1], [2 :: int]]\<rparr>"
  have h: "length [0, 1 :: int] = shape0 ?input" by simp
  note t1 = index_add_invalid_configuration [OF h, of None False]
  note t2 = index_add_invalid_configuration [OF h, of "Some 2" True]
  note t3 = index_add_invalid_configuration [OF h, of "Some 2" False]
  have a: "index_add [0, 1] ?input None False =
      Inl (ValueError ''out_dim must be specified if map_back is False'')"
    using t1 [THEN conjunct2, THEN conjunct1] by simp
  have b: "index_add [0, 1] ?input (Some 2) True =
      Inl (ValueError ''out_dim must not be specified if map_back is True'')"
    using t2 [THEN conjunct2, THEN conjunct2, THEN conjunct1] by simp
  have c: "\<not> (\<exists>msg. index_add [0, 1] ?input (Some 2) False = Inl (ValueError msg))"
    using t3 [THEN conjunct1] by simp
  from h a b c show ?thesis by (intro conjI)
qed

text \<open>
  C8. For a labeled input, \<^verbatim>\<open>index_add\<close> returns what it returns for the input's plain
  array, labeled with the input's own \<^verbatim>\<open>irreps\<close>: the tag of the result is the tag of
  the input, and only the numeric data is scattered.
\<close>

theorem index_add_keeps_irreps:
  "(index_add indices (IrrepsArray ir a) out_dim map_back =
      (case index_add indices (Array a) out_dim map_back of
         Inl e \<Rightarrow> Inl e
       | Inr out \<Rightarrow> Inr (IrrepsArray ir (array_of out)))) \<and>
   (\<forall>result. index_add indices (IrrepsArray ir a) out_dim map_back = Inr result \<longrightarrow>
      (\<exists>output. result = IrrepsArray ir output \<and>
         index_add indices (Array a) out_dim map_back = Inr (Array output)))"
proof (intro conjI allI impI)
  show "index_add indices (IrrepsArray ir a) out_dim map_back =
      (case index_add indices (Array a) out_dim map_back of
         Inl e \<Rightarrow> Inl e
       | Inr out \<Rightarrow> Inr (IrrepsArray ir (array_of out)))"
    by (rule index_add_relabel)
next
  fix result
  assume r: "index_add indices (IrrepsArray ir a) out_dim map_back = Inr result"
  then obtain out where out: "index_add indices (Array a) out_dim map_back = Inr out"
      "result = IrrepsArray ir (array_of out)"
    by (auto simp: index_add_relabel [of indices ir a] split: sum.splits)
  have "\<exists>b. out = Array b"
  proof (cases out_dim)
    case None
    with out(1) show ?thesis
      by (cases map_back) (auto simp: index_add_def Let_def split: sum.splits if_splits)
  next
    case (Some d)
    with out(1) show ?thesis
      by (cases map_back) (auto simp: index_add_def Let_def split: sum.splits if_splits)
  qed
  with out show "\<exists>output. result = IrrepsArray ir output \<and>
         index_add indices (Array a) out_dim map_back = Inr (Array output)"
    by auto
qed

theorem index_add_keeps_irreps_witness:
  "index_add [0, 2, 2, 0] (IrrepsArray [(''1o'', 2, 3)] \<lparr>trailing = [], rows = [[1], [2], [3], [- 10 :: int]]\<rparr>)
      (Some 4) False =
     Inr (IrrepsArray [(''1o'', 2, 3)] \<lparr>trailing = [], rows = [[- 9], [0], [5], [0]]\<rparr>)"
proof -
  have "index_add [0, 2, 2, 0] (Array \<lparr>trailing = [], rows = [[1], [2], [3], [- 10 :: int]]\<rparr>) (Some 4) False =
      Inr (Array \<lparr>trailing = [], rows = [[- 9], [0], [5], [0]]\<rparr>)"
    by (simp add: index_add_def at_add_def jnp_zeros_def at_add_row_def normalize_index_def
        eval_nat_numeral)
  with index_add_keeps_irreps [of "[0, 2, 2, 0]" "[(''1o'', 2, 3)]"
      "\<lparr>trailing = [], rows = [[1], [2], [3], [- 10 :: int]]\<rparr>" "Some 4" False,
      THEN conjunct1]
  show ?thesis by simp
qed

section \<open>\<^verbatim>\<open>index_add\<close> mapped back to the rows\<close>


lemma clip_index_in_range:
  assumes "0 \<le> i" "i < int n"
  shows "clip_index i n = nat i"
  using assms by (simp add: clip_index_def normalize_index_def)




section \<open>Updates outside the output are dropped\<close>









section \<open>The adjacency mask of \<^verbatim>\<open>radius_graph\<close>\<close>







lemma radius_graph_no_batch:
  "radius_graph pos r_max None size' loop = Inr (jnp_where2 (adjacency pos r_max loop) size' (- 1))"
  by (simp add: radius_graph_def Let_def split: prod.splits)


lemma jnp_where2_sized:
  "jnp_where2 m (Some n) fill_value =
     (take n (map fst (nonzero2 m)) @ replicate (n - length (nonzero2 m)) fill_value,
      take n (map snd (nonzero2 m)) @ replicate (n - length (nonzero2 m)) fill_value)"
  by (simp add: jnp_where2_def Let_def take_map)



section \<open>Fixed-size extraction and the batch filter\<close>

lemma jnp_where2_pairs:
  "jnp_where2 m size' fill_value =
     (map fst (case size' of
                 None \<Rightarrow> nonzero2 m
               | Some n \<Rightarrow> take n (nonzero2 m) @ replicate (n - length (nonzero2 m)) (fill_value, fill_value)),
      map snd (case size' of
                 None \<Rightarrow> nonzero2 m
               | Some n \<Rightarrow> take n (nonzero2 m) @ replicate (n - length (nonzero2 m)) (fill_value, fill_value)))"
  by (simp add: jnp_where2_def Let_def)

lemma bool_index_fst:
  "bool_index (map fst ps) (map2 (=) (map f (map fst ps)) (map f (map snd ps))) =
     map fst (filter (\<lambda>(s, d). f s = f d) ps)"
  by (induction ps) (auto simp: bool_index_def)

lemma bool_index_snd:
  "bool_index (map snd ps) (map2 (=) (map f (map fst ps)) (map f (map snd ps))) =
     map snd (filter (\<lambda>(s, d). f s = f d) ps)"
  by (induction ps) (auto simp: bool_index_def)

lemma radius_graph_batch_pairs:
  assumes "jnp_where2 (adjacency pos r_max loop) size' (- 1) = (map fst ps, map snd ps)"
  shows "radius_graph pos r_max (Some b) size' loop =
           (if b = [] \<and> ps \<noteq> [] then Inl IndexError
            else Inr (map fst (filter (\<lambda>(s, d). b ! clip_index s (length b) = b ! clip_index d (length b)) ps),
                      map snd (filter (\<lambda>(s, d). b ! clip_index s (length b) = b ! clip_index d (length b)) ps)))"
proof -
  let ?f = "\<lambda>i. b ! clip_index i (length b)"
  have "radius_graph pos r_max (Some b) size' loop =
      (case jnp_take b (map fst ps) of
         Inl e \<Rightarrow> Inl e
       | Inr bs \<Rightarrow>
           (case jnp_take b (map snd ps) of
              Inl e \<Rightarrow> Inl e
            | Inr bd \<Rightarrow> Inr (bool_index (map fst ps) (map2 (=) bs bd),
                             bool_index (map snd ps) (map2 (=) bs bd))))"
    by (simp add: radius_graph_def assms Let_def cong: sum.case_cong)
  also have "\<dots> =
      (if b = [] \<and> ps \<noteq> [] then Inl IndexError
       else Inr (bool_index (map fst ps) (map2 (=) (map ?f (map fst ps)) (map ?f (map snd ps))),
                 bool_index (map snd ps) (map2 (=) (map ?f (map fst ps)) (map ?f (map snd ps)))))"
    by (simp add: jnp_take_def)
  finally show ?thesis
    by (simp only: bool_index_fst bool_index_snd)
qed

lemma radius_graph_collinear:
  "adjacency [[0, 0, 0], [1, 0, 0], [2, 0, 0]] (3 / 2) False =
     [[False, True, False], [True, False, True], [False, True, False]]"
  by (simp add: adjacency_def distances_def jnp_linalg_norm_def)

lemma nonzero2_collinear:
  "nonzero2 [[False, True, False], [True, False, True], [False, True, False]] =
     [(0, 1), (1, 0), (1, 2), (2, 1)]"
  by (simp add: nonzero2_def)



lemma radius_graph_batch_example:
  "radius_graph [[0, 0, 0], [1, 0, 0], [2, 0, 0]] (3 / 2) (Some [0, 0, 1 :: nat]) (Some 6) False =
     Inr ([0, 1, - 1, - 1], [1, 0, - 1, - 1])"
proof -
  have "jnp_where2 (adjacency [[0, 0, 0], [1, 0, 0], [2, 0, 0]] (3 / 2) False) (Some 6) (- 1) =
      (map fst [(0, 1), (1, 0), (1, 2), (2, 1), (- 1, - 1), (- 1, - 1)],
       map snd [(0, 1), (1, 0), (1, 2), (2, 1), (- 1, - 1), (- 1, - 1)])"
    by (simp add: jnp_where2_sized radius_graph_collinear nonzero2_collinear eval_nat_numeral)
  from radius_graph_batch_pairs [OF this, of "[0, 0, 1 :: nat]"] show ?thesis
    by (simp add: clip_index_def normalize_index_def)
qed

text \<open>
  C5. When \<^verbatim>\<open>radius_graph\<close> is called with a \<^verbatim>\<open>batch\<close> array and returns, the two
  returned arrays have the same length and no returned pair \<open>(s, d)\<close> has
  \<open>batch[s] \<noteq> batch[d]\<close>, where \<open>batch[s]\<close> is read as the code reads it (a negative
  index counts from the end, an index past the end is clamped); for \<open>s\<close>, \<open>d\<close> inside
  the batch array this is the plain \<open>batch ! s = batch ! d\<close>. The returned pairs are the
  pairs of the same call without \<^verbatim>\<open>batch\<close>, that is, after the fixed-size extraction,
  filtered; nothing is padded afterwards, so with a \<open>size\<close> the result has at most
  \<open>size\<close> pairs, and there is a call where it has fewer.
\<close>

theorem radius_graph_batch_filtered:
  fixes batch :: "'b list"
  assumes "radius_graph pos r_max (Some batch) size' loop = Inr (src, dst)"
  shows "length src = length dst \<and>
         (\<forall>k<length src.
            batch ! clip_index (src ! k) (length batch) = batch ! clip_index (dst ! k) (length batch)) \<and>
         (\<forall>k<length src.
            0 \<le> src ! k \<and> src ! k < int (length batch) \<and> 0 \<le> dst ! k \<and> dst ! k < int (length batch) \<longrightarrow>
            batch ! nat (src ! k) = batch ! nat (dst ! k)) \<and>
         (\<exists>src_all dst_all.
            radius_graph pos r_max (None :: 'b list option) size' loop = Inr (src_all, dst_all) \<and>
            zip src dst =
              filter (\<lambda>(s, d). batch ! clip_index s (length batch) = batch ! clip_index d (length batch))
                (zip src_all dst_all)) \<and>
         (\<forall>n. size' = Some n \<longrightarrow> length src \<le> n) \<and>
         (\<exists>pos' r_max' batch' n loop' src' dst'.
            radius_graph pos' r_max' (Some (batch' :: nat list)) (Some n) loop' = Inr (src', dst') \<and>
            length src' < n)"
proof -
  let ?P = "\<lambda>(s, d). batch ! clip_index s (length batch) = batch ! clip_index d (length batch)"
  let ?ps = "case size' of
               None \<Rightarrow> nonzero2 (adjacency pos r_max loop)
             | Some n \<Rightarrow> take n (nonzero2 (adjacency pos r_max loop)) @
                 replicate (n - length (nonzero2 (adjacency pos r_max loop))) (- 1, - 1)"
  have w: "jnp_where2 (adjacency pos r_max loop) size' (- 1) = (map fst ?ps, map snd ?ps)"
    by (rule jnp_where2_pairs)
  from radius_graph_batch_pairs [OF w, of batch] assms
  have src: "src = map fst (filter ?P ?ps)" and dst: "dst = map snd (filter ?P ?ps)"
    by (simp_all split: if_splits)
  have z: "zip src dst = filter ?P ?ps"
    by (simp add: src dst zip_map_fst_snd)
  have len: "length src = length dst"
    by (simp add: src dst)
  have same: "batch ! clip_index (src ! k) (length batch) = batch ! clip_index (dst ! k) (length batch)"
    if k: "k < length src" for k
  proof -
    from k len have "(src ! k, dst ! k) \<in> set (zip src dst)"
      by (metis in_set_zip fst_conv snd_conv)
    then show ?thesis by (simp add: z)
  qed
  have plain: "batch ! nat (src ! k) = batch ! nat (dst ! k)"
    if "k < length src" "0 \<le> src ! k" "src ! k < int (length batch)"
      "0 \<le> dst ! k" "dst ! k < int (length batch)" for k
    using same [OF that(1)] that(2-5) by (simp add: clip_index_in_range)
  have unb: "radius_graph pos r_max (None :: 'b list option) size' loop =
      Inr (map fst ?ps, map snd ?ps)"
    by (simp add: radius_graph_no_batch w)
  have filt: "zip src dst = filter ?P (zip (map fst ?ps) (map snd ?ps))"
    by (simp add: z zip_map_fst_snd)
  have bound: "length src \<le> n" if "size' = Some n" for n
  proof -
    have "length src = length (filter ?P ?ps)" by (simp add: src)
    also have "\<dots> \<le> length ?ps" by (rule length_filter_le)
    also have "length ?ps = n" using that by simp
    finally show ?thesis .
  qed
  have fewer: "\<exists>pos' r_max' batch' n loop' src' dst'.
      radius_graph pos' r_max' (Some (batch' :: nat list)) (Some n) loop' = Inr (src', dst') \<and>
      length src' < n"
    using radius_graph_batch_example
    by (intro exI [of _ "[[0, 0, 0], [1, 0, 0], [2, 0, 0]]"] exI [of _ "3 / 2"]
        exI [of _ "[0, 0, 1]"] exI [of _ 6] exI [of _ False]
        exI [of _ "[0, 1, - 1, - 1]"] exI [of _ "[1, 0, - 1, - 1]"]) simp
  from len same plain unb filt bound fewer show ?thesis
    by blast
qed

theorem radius_graph_batch_filtered_witness:
  "radius_graph [[0, 0, 0], [1, 0, 0], [2, 0, 0]] (3 / 2) (Some [0, 0, 1 :: nat]) (Some 6) False =
     Inr ([0, 1, - 1, - 1], [1, 0, - 1, - 1]) \<and>
   [0, 0, 1 :: nat] ! nat ([0, 1, - 1, - 1] ! 0) = [0, 0, 1] ! nat ([1, 0, - 1, - 1] ! 0) \<and>
   [0, 0, 1 :: nat] ! clip_index ([0, 1, - 1, - 1] ! 2) (length [0, 0, 1 :: nat]) =
     [0, 0, 1] ! clip_index ([1, 0, - 1, - 1] ! 2) (length [0, 0, 1 :: nat]) \<and>
   length [0, 1, - 1, - 1 :: int] \<le> 6"
proof -
  note t = radius_graph_batch_filtered [OF radius_graph_batch_example]
  have a: "[0, 0, 1 :: nat] ! nat ([0, 1, - 1, - 1] ! 0) = [0, 0, 1] ! nat ([1, 0, - 1, - 1] ! 0)"
    using t [THEN conjunct2, THEN conjunct2, THEN conjunct1, rule_format, of 0] by simp
  have b: "[0, 0, 1 :: nat] ! clip_index ([0, 1, - 1, - 1] ! 2) (length [0, 0, 1 :: nat]) =
     [0, 0, 1] ! clip_index ([1, 0, - 1, - 1] ! 2) (length [0, 0, 1 :: nat])"
    using t [THEN conjunct2, THEN conjunct1, rule_format, of 2] by simp
  have c: "length [0, 1, - 1, - 1 :: int] \<le> 6"
    using t [THEN conjunct2, THEN conjunct2, THEN conjunct2, THEN conjunct2, THEN conjunct1,
        rule_format, of 6] by simp
  from radius_graph_batch_example a b c show ?thesis by (intro conjI)
qed



end
